theory Spec2Isabelle
  imports Main "HOL-Library.Word"
begin

section \<open>The dictionary server of \<open>src/http_server.js\<close>\<close>

subsection \<open>JavaScript strings\<close>

text \<open>
  A JavaScript string is a sequence of UTF-16 code units. The handler works on
  \<open>data.toString('utf-8')\<close>, so the model starts from that decoded string. String
  literals of the source are written with \<open>js\<close>, which reads an ASCII literal as
  code units.
\<close>

type_synonym jschar = "16 word"
type_synonym jsstring = "jschar list"

definition js :: "string \<Rightarrow> jsstring" where
  "js s = map (\<lambda>c. word_of_nat (of_char c)) s"

definition CRLF :: jsstring where
  "CRLF = [0x0D, 0x0A]"

text \<open>
  The regular expression class \<open>\s\<close> (without the \<open>u\<close> flag it is tested on single
  code units): the ECMAScript WhiteSpace and LineTerminator productions, that is
  TAB, LF, VT, FF, CR, SP, NBSP, U+1680, U+2000 to U+200A, U+2028, U+2029, U+202F,
  U+205F, U+3000 and U+FEFF.
\<close>

definition is_space :: "jschar \<Rightarrow> bool" where
  "is_space c \<longleftrightarrow>
     c = 0x09 \<or> c = 0x0A \<or> c = 0x0B \<or> c = 0x0C \<or> c = 0x0D \<or> c = 0x20 \<or>
     c = 0xA0 \<or> c = 0x1680 \<or> (0x2000 \<le> c \<and> c \<le> 0x200A) \<or>
     c = 0x2028 \<or> c = 0x2029 \<or> c = 0x202F \<or> c = 0x205F \<or> c = 0x3000 \<or>
     c = 0xFEFF"

text \<open>
  \<open>str.match(/[^\s]+/g)\<close>: all matches, left to right, each one a maximal run of
  code units outside \<open>\s\<close>; \<open>null\<close> when there is none.
\<close>

function tokens :: "jsstring \<Rightarrow> jsstring list" where
  "tokens [] = []"
| "tokens (c # cs) =
     (if is_space c then tokens cs
      else takeWhile (\<lambda>x. \<not> is_space x) (c # cs)
             # tokens (dropWhile (\<lambda>x. \<not> is_space x) cs))"
  by pat_completeness auto
termination
  by (relation "measure length") (auto simp: less_Suc_eq_le length_dropWhile_le)

definition str_match :: "jsstring \<Rightarrow> jsstring list option" where
  "str_match s = (case tokens s of [] \<Rightarrow> None | t # ts \<Rightarrow> Some (t # ts))"

text \<open>\<open>arr[i]\<close> is \<open>undefined\<close> (here \<open>None\<close>) out of range.\<close>

fun at :: "'a list \<Rightarrow> nat \<Rightarrow> 'a option" where
  "at [] i = None"
| "at (x # xs) 0 = Some x"
| "at (x # xs) (Suc i) = at xs i"

text \<open>Truthiness of a value that is a string or \<open>undefined\<close>: only a non-empty string is truthy.\<close>

fun truthy :: "jsstring option \<Rightarrow> bool" where
  "truthy None = False"
| "truthy (Some s) = (s \<noteq> [])"

text \<open>\<open>arr.join(sep)\<close> on an array of strings.\<close>

fun join :: "jsstring \<Rightarrow> jsstring list \<Rightarrow> jsstring" where
  "join sep [] = []"
| "join sep [x] = x"
| "join sep (x # y # ys) = x @ sep @ join sep (y # ys)"

subsection \<open>The dictionary: a JavaScript \<open>Map\<close>\<close>

text \<open>
  \<open>#responses\<close> is a \<open>Map\<close> from strings to strings. \<open>keys()\<close> iterates in insertion
  order, and \<open>set\<close> on a key that is present replaces the value where it stands, so
  the map is the list of its entries in that order. A \<open>Map\<close> holds each key once.
\<close>

type_synonym store = "(jsstring \<times> jsstring) list"

definition map_wf :: "store \<Rightarrow> bool" where
  "map_wf m \<longleftrightarrow> distinct (map fst m)"

fun map_get :: "store \<Rightarrow> jsstring \<Rightarrow> jsstring option" where
  "map_get [] k = None"
| "map_get ((k', v) # m) k = (if k' = k then Some v else map_get m k)"

fun map_set :: "store \<Rightarrow> jsstring \<Rightarrow> jsstring \<Rightarrow> store" where
  "map_set [] k v = [(k, v)]"
| "map_set ((k', v') # m) k v = (if k' = k then (k, v) # m else (k', v') # map_set m k v)"

definition map_clear :: "store \<Rightarrow> store" where
  "map_clear m = []"

definition map_keys :: "store \<Rightarrow> jsstring list" where
  "map_keys m = map fst m"

definition cmdGet :: "store \<Rightarrow> jsstring \<Rightarrow> jsstring option" where
  "cmdGet responses word = map_get responses word"

definition cmdSet :: "store \<Rightarrow> jsstring \<Rightarrow> jsstring \<Rightarrow> store" where
  "cmdSet responses word desc = map_set responses word desc"

definition cmdClear :: "store \<Rightarrow> store" where
  "cmdClear responses = map_clear responses"

definition cmdAll :: "store \<Rightarrow> jsstring" where
  "cmdAll responses = (let tmpArr = map_keys responses in join (js '', '') tmpArr)"

subsection \<open>The socket\<close>

text \<open>
  Of \<open>socket.internal\<close> the handlers use \<open>write\<close> and \<open>destroy\<close>. The model keeps the
  chunks passed to \<open>write\<close>, in order, and whether \<open>destroy\<close> has been called. Console
  output is left out, and \<open>write\<close> is taken not to throw.
\<close>

record socket =
  written :: "jsstring list"
  destroyed :: bool

definition socket_write :: "socket \<Rightarrow> jsstring \<Rightarrow> socket" where
  "socket_write socket chunk = socket\<lparr>written := written socket @ [chunk]\<rparr>"

definition destroy :: "socket \<Rightarrow> socket" where
  "destroy socket = socket\<lparr>destroyed := True\<rparr>"

definition endHandler :: "socket \<Rightarrow> socket" where
  "endHandler socket = destroy (socket_write socket (js ''Finished. Bye!'' @ CRLF))"

subsection \<open>The data handler\<close>

text \<open>
  The \<open>switch\<close> of \<open>#dataHandler\<close>: the dictionary and the socket after the branch
  selected by \<open>stringMatch[0]\<close>.
\<close>

definition dispatch :: "store \<Rightarrow> socket \<Rightarrow> jsstring list \<Rightarrow> store \<times> socket" where
  "dispatch responses socket stringMatch =
     (if at stringMatch 0 = Some (js ''GET'') then
        (case at stringMatch 1 of
           None \<Rightarrow> (responses,
             socket_write socket (js ''ERROR Expected format is: GET <word>.'' @ CRLF))
         | Some word \<Rightarrow>
             if \<not> truthy (Some word)
             then (responses,
               socket_write socket (js ''ERROR Expected format is: GET <word>.'' @ CRLF))
             else (case cmdGet responses word of
                     None \<Rightarrow> (responses,
                       socket_write socket (js ''ERROR Could not find the specified word.'' @ CRLF))
                   | Some rVal \<Rightarrow>
                       if truthy (Some rVal)
                       then (responses, socket_write socket (js ''ANSWER '' @ rVal @ CRLF))
                       else (responses,
                         socket_write socket (js ''ERROR Could not find the specified word.'' @ CRLF))))
      else if at stringMatch 0 = Some (js ''SET'') then
        (let extraParam = join (js '' '') (drop 2 stringMatch) in
         case at stringMatch 1 of
           None \<Rightarrow> (responses,
             socket_write socket (js ''ERROR Expected format is: SET <word> <desc>'' @ CRLF))
         | Some word \<Rightarrow>
             if \<not> truthy (Some word) \<or> \<not> truthy (Some extraParam)
             then (responses,
               socket_write socket (js ''ERROR Expected format is: SET <word> <desc>'' @ CRLF))
             else (cmdSet responses word extraParam,
               socket_write socket (js ''ANSWER Word '' @ word @ js '' has been set.'' @ CRLF)))
      else if at stringMatch 0 = Some (js ''CLEAR'') then
        (cmdClear responses,
          socket_write socket (js ''ANSWER The dictionary has been cleared.'' @ CRLF))
      else if at stringMatch 0 = Some (js ''ALL'') then
        (let words = cmdAll responses in
         if truthy (Some words)
         then (responses,
           socket_write socket (js ''ANSWER Available words: '' @ words @ js ''.'' @ CRLF))
         else (responses, socket_write socket (js ''ERROR There are no words saved.'' @ CRLF)))
      else (responses, socket_write socket (js ''ERROR Command not found.'' @ CRLF)))"

definition dataHandler :: "store \<Rightarrow> socket \<Rightarrow> jsstring \<Rightarrow> store \<times> socket" where
  "dataHandler responses socket data =
     (case str_match data of
        None \<Rightarrow> (responses, socket_write socket (js ''ERROR A command was expected.'' @ CRLF))
      | Some stringMatch \<Rightarrow>
          (case dispatch responses socket stringMatch of
             (responses', socket') \<Rightarrow>
               (responses', socket_write socket' (js ''---------------'' @ CRLF))))"

subsection \<open>Connections\<close>

text \<open>
  \<open>#tcpHandler\<close> registers \<open>#endHandler\<close> for the \<open>end\<close> event of a connection and
  \<open>#dataHandler\<close> for its \<open>data\<close> events. A destroyed socket emits no further event.
\<close>

datatype event = Data jsstring | End

fun on_event :: "store \<times> socket \<Rightarrow> event \<Rightarrow> store \<times> socket" where
  "on_event (responses, socket) ev =
     (if destroyed socket then (responses, socket)
      else (case ev of
              Data d \<Rightarrow> dataHandler responses socket d
            | End \<Rightarrow> (responses, endHandler socket)))"

text \<open>Successive \<open>data\<close> events, handled one after the other.\<close>

fun run :: "store \<times> socket \<Rightarrow> jsstring list \<Rightarrow> store \<times> socket" where
  "run (responses, socket) [] = (responses, socket)"
| "run (responses, socket) (d # ds) = run (dataHandler responses socket d) ds"

subsection \<open>Notions used in the properties\<close>

text \<open>A word: a non-empty string without whitespace, as a match of \<open>/[^\s]+/\<close> is.\<close>

definition is_word :: "jsstring \<Rightarrow> bool" where
  "is_word w \<longleftrightarrow> w \<noteq> [] \<and> list_all (\<lambda>c. \<not> is_space c) w"

text \<open>The value the \<open>switch\<close> looks at, \<open>stringMatch[0]\<close>; \<open>None\<close> when there is no match.\<close>

definition verb :: "jsstring \<Rightarrow> jsstring option" where
  "verb data = (case str_match data of None \<Rightarrow> None | Some stringMatch \<Rightarrow> at stringMatch 0)"

text \<open>The invariant of the dictionary: every key is a word and no description is empty.\<close>

definition store_inv :: "store \<Rightarrow> bool" where
  "store_inv m \<longleftrightarrow> list_all (\<lambda>(k, v). is_word k \<and> v \<noteq> []) m"

section \<open>Auxiliary facts\<close>

subsection \<open>Tokens\<close>

lemma js_append: "js (a @ b) = js a @ js b"
  by (simp add: js_def)

lemma takeWhile_all: "\<forall>y\<in>set xs. P y \<Longrightarrow> takeWhile P xs = xs"
  by simp

lemma dropWhile_all: "\<forall>y\<in>set xs. P y \<Longrightarrow> dropWhile P xs = []"
  by simp

lemma tokens_append_space:
  "is_space c \<Longrightarrow> tokens (a @ c # b) = tokens a @ tokens b"
proof (induction a rule: tokens.induct)
  case 1
  then show ?case by simp
next
  case (2 x xs)
  show ?case
  proof (cases "is_space x")
    case True
    with 2 show ?thesis by simp
  next
    case False
    show ?thesis
    proof (cases "\<forall>y\<in>set xs. \<not> is_space y")
      case True
      with False 2(3) show ?thesis
        by (simp add: takeWhile_append2 dropWhile_append2 takeWhile_all dropWhile_all)
    next
      case nall: False
      then obtain y where y: "y \<in> set xs" "is_space y" by blast
      have "tokens (dropWhile (\<lambda>x. \<not> is_space x) xs @ c # b) = tokens (dropWhile (\<lambda>x. \<not> is_space x) xs) @ tokens b"
        using 2(2)[OF False 2(3)] .
      with False y show ?thesis
        by (simp add: takeWhile_append1[where x=y] dropWhile_append1[where x=y])
    qed
  qed
qed

lemma tokens_word: "is_word w \<Longrightarrow> tokens w = [w]"
proof (cases w)
  case Nil
  assume "is_word w"
  with Nil show ?thesis by (simp add: is_word_def)
next
  case (Cons c cs)
  assume "is_word w"
  with Cons have c: "\<not> is_space c" and cs: "\<forall>y\<in>set cs. \<not> is_space y"
    by (simp_all add: is_word_def list_all_iff)
  with Cons show ?thesis by (simp add: takeWhile_all dropWhile_all)
qed

lemma tokens_all_space: "tokens s = [] \<longleftrightarrow> list_all is_space s"
  by (induction s rule: tokens.induct) auto

lemma tokens_are_words: "t \<in> set (tokens s) \<Longrightarrow> is_word t"
proof (induction s rule: tokens.induct)
  case 1
  then show ?case by simp
next
  case (2 c cs)
  show ?case
  proof (cases "is_space c")
    case True
    with 2 show ?thesis by simp
  next
    case False
    have "is_word (c # takeWhile (\<lambda>x. \<not> is_space x) cs)"
      using False by (auto simp: is_word_def list_all_iff dest: set_takeWhileD)
    with False 2 show ?thesis by auto
  qed
qed

lemma tokens_space_suffix: "list_all is_space e \<Longrightarrow> tokens (a @ e) = tokens a"
proof (induction e arbitrary: a)
  case Nil then show ?case by simp
next
  case (Cons c e)
  have "tokens (a @ c # e) = tokens a @ tokens e" using Cons.prems by (simp add: tokens_append_space)
  moreover have "tokens e = []" using Cons.prems by (simp add: tokens_all_space)
  ultimately show ?case by simp
qed

lemma tokens_join: "list_all is_word ts \<Longrightarrow> tokens (join [0x20] ts) = ts"
proof (induction "[0x20 :: jschar]" ts rule: join.induct)
  case 1 show ?case by simp
next
  case (2 x) then show ?case by (simp add: tokens_word)
next
  case (3 x y ys)
  have sp: "is_space 0x20" by (simp add: is_space_def)
  from 3 show ?case by (simp add: tokens_append_space[OF sp] tokens_word)
qed


subsection \<open>The branches of the handler\<close>

lemma join_nonempty: "t \<noteq> [] \<Longrightarrow> join sep (t # ts) \<noteq> []"
  by (cases ts) simp_all

lemma verb_literals:
  "js ''GET'' \<noteq> js ''SET''" "js ''GET'' \<noteq> js ''CLEAR''" "js ''GET'' \<noteq> js ''ALL''"
  "js ''SET'' \<noteq> js ''GET''" "js ''SET'' \<noteq> js ''CLEAR''" "js ''SET'' \<noteq> js ''ALL''"
  "js ''CLEAR'' \<noteq> js ''GET''" "js ''CLEAR'' \<noteq> js ''SET''" "js ''CLEAR'' \<noteq> js ''ALL''"
  "js ''ALL'' \<noteq> js ''GET''" "js ''ALL'' \<noteq> js ''SET''" "js ''ALL'' \<noteq> js ''CLEAR''"
  by (simp_all add: js_def)

lemma str_match_Nil: "tokens d = [] \<Longrightarrow> str_match d = None"
  by (simp add: str_match_def)

lemma str_match_Cons: "tokens d = t # ts \<Longrightarrow> str_match d = Some (t # ts)"
  by (simp add: str_match_def)

lemma verb_tokens: "verb d = at (tokens d) 0"
  by (cases "tokens d") (simp_all add: verb_def str_match_def)

lemma dataHandler_blank:
  "tokens d = [] \<Longrightarrow>
   dataHandler st sock d = (st, socket_write sock (js ''ERROR A command was expected.'' @ CRLF))"
  by (simp add: dataHandler_def str_match_Nil)

lemma dataHandler_dispatch:
  "tokens d = t # ts \<Longrightarrow>
   dataHandler st sock d =
     (fst (dispatch st sock (t # ts)),
      socket_write (snd (dispatch st sock (t # ts))) (js ''---------------'' @ CRLF))"
  by (simp add: dataHandler_def str_match_Cons split: prod.split)

lemma dispatch_get:
  "w \<noteq> [] \<Longrightarrow>
   dispatch st sock (js ''GET'' # w # ts) =
     (st, socket_write sock
        (case map_get st w of
           None \<Rightarrow> js ''ERROR Could not find the specified word.'' @ CRLF
         | Some v \<Rightarrow> if v = [] then js ''ERROR Could not find the specified word.'' @ CRLF
                     else js ''ANSWER '' @ v @ CRLF))"
  by (simp add: dispatch_def cmdGet_def split: option.split)

lemma dispatch_get_missing:
  "dispatch st sock [js ''GET''] =
     (st, socket_write sock (js ''ERROR Expected format is: GET <word>.'' @ CRLF))"
  by (simp add: dispatch_def)

lemma dispatch_set:
  "w \<noteq> [] \<Longrightarrow> t \<noteq> [] \<Longrightarrow>
   dispatch st sock (js ''SET'' # w # t # ts) =
     (map_set st w (join (js '' '') (t # ts)),
      socket_write sock (js ''ANSWER Word '' @ w @ js '' has been set.'' @ CRLF))"
  by (simp add: dispatch_def cmdSet_def verb_literals join_nonempty)

lemma dispatch_set_missing:
  "length ts \<le> 1 \<Longrightarrow>
   dispatch st sock (js ''SET'' # ts) =
     (st, socket_write sock (js ''ERROR Expected format is: SET <word> <desc>'' @ CRLF))"
  by (cases ts) (simp_all add: dispatch_def verb_literals)

lemma dispatch_clear:
  "dispatch st sock (js ''CLEAR'' # ts) =
     ([], socket_write sock (js ''ANSWER The dictionary has been cleared.'' @ CRLF))"
  by (simp add: dispatch_def cmdClear_def map_clear_def verb_literals)

lemma dispatch_all:
  "dispatch st sock (js ''ALL'' # ts) =
     (st, socket_write sock
        (if join (js '', '') (map_keys st) = [] then js ''ERROR There are no words saved.'' @ CRLF
         else js ''ANSWER Available words: '' @ join (js '', '') (map_keys st) @ js ''.'' @ CRLF))"
  by (simp add: dispatch_def cmdAll_def verb_literals)

lemma dispatch_unknown:
  "t \<noteq> js ''GET'' \<Longrightarrow> t \<noteq> js ''SET'' \<Longrightarrow> t \<noteq> js ''CLEAR'' \<Longrightarrow> t \<noteq> js ''ALL'' \<Longrightarrow>
   dispatch st sock (t # ts) = (st, socket_write sock (js ''ERROR Command not found.'' @ CRLF))"
  by (simp add: dispatch_def)

subsection \<open>The dictionary\<close>

lemma map_get_set_same: "map_get (map_set m k v) k = Some v"
  by (induction m k v rule: map_set.induct) simp_all

lemma map_get_set_other: "k' \<noteq> k \<Longrightarrow> map_get (map_set m k v) k' = map_get m k'"
  by (induction m k v rule: map_set.induct) simp_all

lemma map_set_twice: "map_set (map_set m k v) k v' = map_set m k v'"
  by (induction m k v rule: map_set.induct) simp_all

lemma keys_map_set: "set (map_keys (map_set m k v)) = insert k (set (map_keys m))"
  by (induction m k v rule: map_set.induct) (auto simp: map_keys_def)

lemma map_wf_set: "map_wf m \<Longrightarrow> map_wf (map_set m k v)"
proof (induction m k v rule: map_set.induct)
  case (1 k v)
  show ?case by (simp add: map_wf_def)
next
  case (2 k' v' m k v)
  have "fst ` set (map_set m k v) = insert k (fst ` set m)"
    using keys_map_set[of m k v] by (simp add: map_keys_def)
  with 2 show ?case by (auto simp: map_wf_def)
qed

lemma filter_absent: "k \<notin> fst ` set m \<Longrightarrow> filter (\<lambda>e. fst e = k) m = []"
  by (induction m) auto

lemma entries_map_set:
  "map_wf m \<Longrightarrow> filter (\<lambda>e. fst e = k) (map_set m k v) = [(k, v)]"
proof (induction m k v rule: map_set.induct)
  case (1 k v)
  show ?case by simp
next
  case (2 k' v' m k v)
  then show ?case by (auto simp: map_wf_def filter_absent)
qed

lemma store_inv_set: "store_inv m \<Longrightarrow> is_word k \<Longrightarrow> v \<noteq> [] \<Longrightarrow> store_inv (map_set m k v)"
  by (induction m k v rule: map_set.induct) (auto simp: store_inv_def)

lemma join_keys_nonempty: "store_inv m \<Longrightarrow> m \<noteq> [] \<Longrightarrow> join sep (map_keys m) \<noteq> []"
  by (cases m) (auto simp: store_inv_def map_keys_def is_word_def join_nonempty)

subsection \<open>Request lines\<close>

lemma written_socket_write: "written (socket_write sock c) = written sock @ [c]"
  by (simp add: socket_write_def)

lemma destroyed_socket_write: "destroyed (socket_write sock c) = destroyed sock"
  by (simp add: socket_write_def)

lemma is_space_SP: "is_space 0x20"
  by (simp add: is_space_def)

lemma CRLF_spaces: "list_all is_space CRLF"
  by (simp add: CRLF_def is_space_def)

lemma literal_tokens:
  "tokens (js ''GET'') = [js ''GET'']" "tokens (js ''SET'') = [js ''SET'']"
  "tokens (js ''CLEAR'') = [js ''CLEAR'']" "tokens (js ''ALL'') = [js ''ALL'']"
  by (simp_all add: js_def is_space_def)

lemma literal_SP: "js ''SET '' = js ''SET'' @ [0x20]" "js ''GET '' = js ''GET'' @ [0x20]" "js '' '' = [0x20]"
  by (simp_all add: js_def)

lemma set_line_tokens:
  "is_word w \<Longrightarrow> tokens (js ''SET '' @ w @ js '' '' @ d @ CRLF) = js ''SET'' # w # tokens d"
proof -
  assume w: "is_word w"
  have "tokens (js ''SET '' @ w @ js '' '' @ d @ CRLF)
        = tokens (js ''SET'' @ 0x20 # (w @ 0x20 # (d @ CRLF)))"
    by (simp add: literal_SP)
  also have "\<dots> = tokens (js ''SET'') @ tokens w @ tokens (d @ CRLF)"
    by (simp only: tokens_append_space[OF is_space_SP])
  also have "\<dots> = js ''SET'' # w # tokens d"
    using w by (simp add: literal_tokens tokens_word tokens_space_suffix[OF CRLF_spaces])
  finally show ?thesis .
qed

lemma get_line_tokens:
  "is_word w \<Longrightarrow> tokens (js ''GET '' @ w @ CRLF) = [js ''GET'', w]"
proof -
  assume w: "is_word w"
  have "tokens (js ''GET '' @ w @ CRLF) = tokens (js ''GET'' @ 0x20 # (w @ CRLF))"
    by (simp add: literal_SP)
  also have "\<dots> = tokens (js ''GET'') @ tokens (w @ CRLF)"
    by (simp only: tokens_append_space[OF is_space_SP])
  also have "\<dots> = [js ''GET'', w]"
    using w by (simp add: literal_tokens tokens_word tokens_space_suffix[OF CRLF_spaces])
  finally show ?thesis .
qed

lemma dataHandler_set_line:
  assumes "is_word w" "tokens d \<noteq> []"
  shows "dataHandler st sock (js ''SET '' @ w @ js '' '' @ d @ CRLF) =
           (map_set st w (join (js '' '') (tokens d)),
            socket_write (socket_write sock (js ''ANSWER Word '' @ w @ js '' has been set.'' @ CRLF))
              (js ''---------------'' @ CRLF))"
proof -
  from assms(2) obtain t ts where d: "tokens d = t # ts" by (cases "tokens d") auto
  then have "is_word t" using tokens_are_words[of t d] by simp
  then have t: "t \<noteq> []" by (simp add: is_word_def)
  from assms(1) have w: "w \<noteq> []" by (simp add: is_word_def)
  have "tokens (js ''SET '' @ w @ js '' '' @ d @ CRLF) = js ''SET'' # w # t # ts"
    using set_line_tokens[OF assms(1), of d] d by simp
  then show ?thesis
    using d by (simp add: dataHandler_dispatch dispatch_set[OF w t])
qed

lemma dataHandler_get_line:
  assumes "is_word w"
  shows "dataHandler st sock (js ''GET '' @ w @ CRLF) =
           (st, socket_write (socket_write sock
              (case map_get st w of
                 None \<Rightarrow> js ''ERROR Could not find the specified word.'' @ CRLF
               | Some v \<Rightarrow> if v = [] then js ''ERROR Could not find the specified word.'' @ CRLF
                           else js ''ANSWER '' @ v @ CRLF))
              (js ''---------------'' @ CRLF))"
proof -
  from assms have w: "w \<noteq> []" by (simp add: is_word_def)
  show ?thesis
    by (simp add: dataHandler_dispatch[OF get_line_tokens[OF assms]] dispatch_get[OF w])
qed

lemma join_tokens_nonempty: "tokens d \<noteq> [] \<Longrightarrow> join sep (tokens d) \<noteq> []"
proof -
  assume "tokens d \<noteq> []"
  then obtain t ts where d: "tokens d = t # ts" by (cases "tokens d") auto
  then have "is_word t" using tokens_are_words[of t d] by simp
  then show ?thesis using d by (simp add: is_word_def join_nonempty)
qed

lemma tokens_CRLF: "tokens CRLF = []"
  by (simp add: tokens_all_space CRLF_spaces)

lemma all_line_tokens: "tokens (js ''ALL'' @ CRLF) = [js ''ALL'']"
  by (simp add: tokens_space_suffix[OF CRLF_spaces] literal_tokens)

lemma clear_line_tokens: "tokens (js ''CLEAR'' @ CRLF) = [js ''CLEAR'']"
  by (simp add: tokens_space_suffix[OF CRLF_spaces] literal_tokens)

lemma fst_dataHandler_clear: "verb d = Some (js ''CLEAR'') \<Longrightarrow> fst (dataHandler st sock d) = []"
  by (cases "tokens d") (simp_all add: verb_tokens dataHandler_dispatch dispatch_clear)

lemma dataHandler_all_line:
  "dataHandler st sock (js ''ALL'' @ CRLF) =
     (st, socket_write (socket_write sock
        (if join (js '', '') (map_keys st) = [] then js ''ERROR There are no words saved.'' @ CRLF
         else js ''ANSWER Available words: '' @ join (js '', '') (map_keys st) @ js ''.'' @ CRLF))
        (js ''---------------'' @ CRLF))"
  by (simp add: dataHandler_dispatch[OF all_line_tokens] dispatch_all)

lemma fst_dispatch_cases:
  "fst (dispatch st sock (t # ts)) = st \<or> t = js ''SET'' \<or> t = js ''CLEAR''"
  by (auto simp: dispatch_def Let_def split: option.split)

subsection \<open>The invariant and repeated requests\<close>

lemma at_in_set: "at xs i = Some x \<Longrightarrow> x \<in> set xs"
  by (induction xs i rule: at.induct) auto

lemma store_inv_dispatch:
  assumes "store_inv st" and "\<forall>t\<in>set toks. is_word t"
  shows "store_inv (fst (dispatch st sock toks))"
proof -
  have set: "store_inv (cmdSet st word extra)"
    if "at toks 1 = Some word" "extra \<noteq> []" for word extra
    using that assms at_in_set[of toks 1 word] by (simp add: cmdSet_def store_inv_set)
  have clr: "store_inv (cmdClear st)"
    by (simp add: cmdClear_def map_clear_def store_inv_def)
  show ?thesis
    using assms(1) set clr
    by (simp add: dispatch_def Let_def split: option.split)
qed

lemma map_wf_dataHandler: "map_wf st \<Longrightarrow> map_wf (fst (dataHandler st sock d))"
proof (cases "tokens d")
  case Nil
  assume "map_wf st"
  with Nil show ?thesis by (simp add: dataHandler_blank)
next
  case (Cons t ts)
  assume wf: "map_wf st"
  have "map_wf (fst (dispatch st sock (t # ts)))"
    using wf map_wf_set[OF wf]
    by (simp add: dispatch_def Let_def cmdSet_def cmdClear_def map_clear_def map_wf_def
        split: option.split)
  with Cons show ?thesis by (simp add: dataHandler_dispatch)
qed

lemma store_inv_dataHandler: "store_inv st \<Longrightarrow> store_inv (fst (dataHandler st sock d))"
proof (cases "tokens d")
  case Nil
  assume "store_inv st"
  with Nil show ?thesis by (simp add: dataHandler_blank)
next
  case (Cons t ts)
  assume inv: "store_inv st"
  have "\<forall>x\<in>set (t # ts). is_word x"
    using tokens_are_words[of _ d] Cons by simp
  from store_inv_dispatch[OF inv this] Cons show ?thesis
    by (simp add: dataHandler_dispatch)
qed

lemma store_inv_run: "store_inv st \<Longrightarrow> store_inv (fst (run (st, sock) ds))"
proof (induction ds arbitrary: st sock)
  case Nil
  then show ?case by simp
next
  case (Cons d ds)
  obtain st' sock' where h: "dataHandler st sock d = (st', sock')"
    by (cases "dataHandler st sock d")
  with store_inv_dataHandler[OF Cons.prems, of sock d] have "store_inv st'" by simp
  from Cons.IH[OF this] h show ?case by simp
qed

lemma run_clear:
  "fst (run (st, sock) (replicate (Suc n) (js ''CLEAR'' @ CRLF))) = []"
proof (induction n arbitrary: st sock)
  case 0
  show ?case by (simp add: dataHandler_dispatch[OF clear_line_tokens] dispatch_clear)
next
  case (Suc n)
  obtain st' sock' where h: "dataHandler st sock (js ''CLEAR'' @ CRLF) = (st', sock')"
    by (cases "dataHandler st sock (js ''CLEAR'' @ CRLF)")
  from Suc[of st' sock'] h show ?case by simp
qed

lemma run_set:
  assumes "is_word w" and "tokens d \<noteq> []"
  shows "fst (run (st, sock) (replicate (Suc n) (js ''SET '' @ w @ js '' '' @ d @ CRLF)))
         = map_set st w (join (js '' '') (tokens d))"
proof (induction n arbitrary: st sock)
  case 0
  show ?case by (simp add: dataHandler_set_line[OF assms])
next
  case (Suc n)
  have "run (st, sock) (replicate (Suc (Suc n)) (js ''SET '' @ w @ js '' '' @ d @ CRLF))
        = run (map_set st w (join (js '' '') (tokens d)),
               socket_write (socket_write sock
                 (js ''ANSWER Word '' @ w @ js '' has been set.'' @ CRLF))
                 (js ''---------------'' @ CRLF))
            (replicate (Suc n) (js ''SET '' @ w @ js '' '' @ d @ CRLF))"
    by (simp add: dataHandler_set_line[OF assms])
  then show ?case by (simp only: Suc map_set_twice)
qed

lemma closed_connection_ignores_data:
  "on_event (on_event (st, sock) End) (Data d) = on_event (st, sock) End"
  by (simp add: endHandler_def destroy_def)

subsection \<open>Whitespace and written chunks\<close>

lemma dataHandler_cong: "tokens d = tokens d' \<Longrightarrow> dataHandler st sock d = dataHandler st sock d'"
  by (simp add: dataHandler_def str_match_def)

lemma tokens_space_prefix: "list_all is_space s \<Longrightarrow> tokens (s @ b) = tokens b"
  by (induction s) simp_all

lemma tokens_append_spaces:
  "list_all is_space s \<Longrightarrow> s \<noteq> [] \<Longrightarrow> tokens (a @ s @ b) = tokens a @ tokens b"
proof (cases s)
  case Nil
  assume "s \<noteq> []"
  with Nil show ?thesis by simp
next
  case (Cons c s')
  assume "list_all is_space s"
  with Cons have c: "is_space c" and s': "list_all is_space s'" by simp_all
  have "tokens (a @ c # (s' @ b)) = tokens a @ tokens (s' @ b)"
    by (rule tokens_append_space[OF c])
  with Cons s' show ?thesis by (simp add: tokens_space_prefix)
qed

lemma tokens_two_lines: "tokens (l1 @ CRLF @ l2 @ CRLF) = tokens l1 @ tokens l2"
proof -
  have "CRLF \<noteq> []" by (simp add: CRLF_def)
  from tokens_append_spaces[OF CRLF_spaces this, of l1 "l2 @ CRLF"]
  show ?thesis by (simp add: tokens_space_suffix[OF CRLF_spaces])
qed

lemma takeWhile_map_sp:
  "takeWhile (\<lambda>x. \<not> is_space x) (map (\<lambda>c. if is_space c then 0x20 else c) cs)
   = takeWhile (\<lambda>x. \<not> is_space x) cs"
  by (induction cs) (simp_all add: is_space_SP)

lemma dropWhile_map_sp:
  "dropWhile (\<lambda>x. \<not> is_space x) (map (\<lambda>c. if is_space c then 0x20 else c) cs)
   = map (\<lambda>c. if is_space c then 0x20 else c) (dropWhile (\<lambda>x. \<not> is_space x) cs)"
  by (induction cs) (simp_all add: is_space_SP)

lemma tokens_map_sp: "tokens (map (\<lambda>c. if is_space c then 0x20 else c) d) = tokens d"
proof (induction d rule: tokens.induct)
  case 1
  show ?case by simp
next
  case (2 c cs)
  show ?case
  proof (cases "is_space c")
    case True
    with 2 show ?thesis by (simp add: is_space_SP)
  next
    case False
    with 2 show ?thesis by (simp add: takeWhile_map_sp dropWhile_map_sp)
  qed
qed

lemma dispatch_writes:
  "snd (dispatch st sock toks) = socket_write sock (last (written (snd (dispatch st sock toks))))
   \<and> (take 7 (last (written (snd (dispatch st sock toks)))) = js ''ANSWER ''
      \<or> take 6 (last (written (snd (dispatch st sock toks)))) = js ''ERROR '')"
proof -
  have a: "take 7 (js ''ANSWER '' @ x) = js ''ANSWER ''" for x by (simp add: js_def)
  have e1: "take 6 (js ''ERROR Expected format is: GET <word>.'' @ x) = js ''ERROR ''" for x
    by (simp add: js_def)
  have e2: "take 6 (js ''ERROR Could not find the specified word.'' @ x) = js ''ERROR ''" for x
    by (simp add: js_def)
  have e3: "take 6 (js ''ERROR Expected format is: SET <word> <desc>'' @ x) = js ''ERROR ''" for x
    by (simp add: js_def)
  have e4: "take 6 (js ''ERROR There are no words saved.'' @ x) = js ''ERROR ''" for x
    by (simp add: js_def)
  have e5: "take 6 (js ''ERROR Command not found.'' @ x) = js ''ERROR ''" for x
    by (simp add: js_def)
  have a1: "take 7 (js ''ANSWER Word '' @ x) = js ''ANSWER ''" for x by (simp add: js_def)
  have a2: "take 7 (js ''ANSWER The dictionary has been cleared.'' @ x) = js ''ANSWER ''" for x
    by (simp add: js_def)
  have a3: "take 7 (js ''ANSWER Available words: '' @ x) = js ''ANSWER ''" for x
    by (simp add: js_def)
  show ?thesis
    unfolding dispatch_def Let_def
    by (simp add: written_socket_write verb_literals a e1 e2 e3 e4 e5 a1 a2 a3
        del: take_append split: option.split)
qed

lemma dataHandler_writes:
  "\<exists>r. (take 7 r = js ''ANSWER '' \<or> take 6 r = js ''ERROR '')
       \<and> written (snd (dataHandler st sock d)) =
           written sock @ (if tokens d = [] then [r] else [r, js ''---------------'' @ CRLF])"
proof (cases "tokens d")
  case Nil
  have "take 6 (js ''ERROR A command was expected.'' @ CRLF) = js ''ERROR ''"
    by (simp add: js_def)
  with Nil show ?thesis
    by (simp add: dataHandler_blank written_socket_write)
next
  case (Cons t ts)
  from dispatch_writes[of st sock "t # ts"] obtain r where
    r: "snd (dispatch st sock (t # ts)) = socket_write sock r"
       "take 7 r = js ''ANSWER '' \<or> take 6 r = js ''ERROR ''" by blast
  have "written (snd (dataHandler st sock d)) = written sock @ [r, js ''---------------'' @ CRLF]"
    using Cons r(1) by (simp add: dataHandler_dispatch written_socket_write)
  with r(2) Cons show ?thesis by auto
qed

section \<open>Properties\<close>

subsection \<open>SET followed by GET\<close>

text \<open>
  Claim C1. After the line \<open>SET w d\<close>, the line \<open>GET w\<close> on the same dictionary is
  answered with \<open>ANSWER d\<close>, for every non-empty \<open>w\<close> without whitespace and every
  non-empty \<open>d\<close>. As stated this fails: the handler stores the tokens of \<open>d\<close> joined
  with single spaces, so a description with a run of two spaces does not come back.
\<close>

theorem set_get_roundtrip_counterexample:
  "written (snd (dataHandler
       (fst (dataHandler [] \<lparr>written = [], destroyed = False\<rparr>
               (js ''SET '' @ js ''a'' @ js '' '' @ js ''b  c'' @ CRLF)))
       \<lparr>written = [], destroyed = False\<rparr> (js ''GET '' @ js ''a'' @ CRLF)))
   \<noteq> [js ''ANSWER '' @ js ''b  c'' @ CRLF, js ''---------------'' @ CRLF]"
  by (simp add: dataHandler_def dispatch_def str_match_def cmdSet_def cmdGet_def socket_write_def
      js_def CRLF_def is_space_def)

text \<open>
  Claim C1, amended. For every word \<open>w\<close> and every \<open>d\<close> with at least one character that
  is not whitespace, \<open>GET w\<close> after \<open>SET w d\<close> is answered with \<open>ANSWER\<close> followed by
  the tokens of \<open>d\<close> joined with single spaces, then the separator line; this is
  \<open>ANSWER d\<close> whenever \<open>d\<close> already is a sequence of words joined with single spaces.
\<close>

theorem set_get_roundtrip:
  assumes "is_word w" and "tokens d \<noteq> []"
  shows "written (snd (dataHandler
             (fst (dataHandler st sock (js ''SET '' @ w @ js '' '' @ d @ CRLF)))
             sock' (js ''GET '' @ w @ CRLF)))
           = written sock' @ [js ''ANSWER '' @ join (js '' '') (tokens d) @ CRLF,
                              js ''---------------'' @ CRLF]
         \<and> (list_all is_word ts \<longrightarrow> d = join (js '' '') ts \<longrightarrow>
              join (js '' '') (tokens d) = d)"
proof
  show "written (snd (dataHandler
             (fst (dataHandler st sock (js ''SET '' @ w @ js '' '' @ d @ CRLF)))
             sock' (js ''GET '' @ w @ CRLF)))
           = written sock' @ [js ''ANSWER '' @ join (js '' '') (tokens d) @ CRLF,
                              js ''---------------'' @ CRLF]"
    using join_tokens_nonempty[OF assms(2), of "js '' ''"]
    by (simp add: dataHandler_set_line[OF assms] dataHandler_get_line[OF assms(1)]
        map_get_set_same written_socket_write)
  show "list_all is_word ts \<longrightarrow> d = join (js '' '') ts \<longrightarrow> join (js '' '') (tokens d) = d"
    by (simp add: literal_SP tokens_join)
qed

theorem set_get_roundtrip_witness:
  "is_word (js ''foo'') \<and> tokens (js ''bar baz'') \<noteq> []
   \<and> list_all is_word [js ''bar'', js ''baz'']
   \<and> js ''bar baz'' = join (js '' '') [js ''bar'', js ''baz'']
   \<and> written (snd (dataHandler
         (fst (dataHandler [] \<lparr>written = [], destroyed = False\<rparr>
                 (js ''SET '' @ js ''foo'' @ js '' '' @ js ''bar baz'' @ CRLF)))
         \<lparr>written = [], destroyed = False\<rparr> (js ''GET '' @ js ''foo'' @ CRLF)))
       = [js ''ANSWER '' @ js ''bar baz'' @ CRLF, js ''---------------'' @ CRLF]"
proof -
  have w: "is_word (js ''foo'')"
    by (simp add: is_word_def js_def is_space_def)
  have d: "tokens (js ''bar baz'') \<noteq> []"
    by (simp add: js_def is_space_def)
  have ts: "list_all is_word [js ''bar'', js ''baz'']"
    by (simp add: is_word_def js_def is_space_def)
  have j: "js ''bar baz'' = join (js '' '') [js ''bar'', js ''baz'']"
    by (simp add: js_def)
  from set_get_roundtrip[OF w d, of "[]" "\<lparr>written = [], destroyed = False\<rparr>"
      "\<lparr>written = [], destroyed = False\<rparr>" "[js ''bar'', js ''baz'']"] w d ts j
  show ?thesis by simp
qed

subsection \<open>ALL\<close>

text \<open>
  Claim C3. The line \<open>ALL\<close> on an empty dictionary, in particular right after a
  \<open>CLEAR\<close>, is answered with \<open>ERROR There are no words saved.\<close>; on a dictionary that
  is not empty (and satisfies the invariant of the dictionary, as every dictionary
  the handler builds does) it is answered with \<open>ANSWER Available words: \<close>, the keys
  joined with comma and space, and a full stop.
\<close>

theorem all_lists_words:
  "dataHandler [] sock (js ''ALL'' @ CRLF) =
     ([], socket_write (socket_write sock (js ''ERROR There are no words saved.'' @ CRLF))
            (js ''---------------'' @ CRLF))
   \<and> dataHandler (fst (dataHandler st sock' (js ''CLEAR'' @ CRLF))) sock (js ''ALL'' @ CRLF) =
     ([], socket_write (socket_write sock (js ''ERROR There are no words saved.'' @ CRLF))
            (js ''---------------'' @ CRLF))
   \<and> (store_inv st \<longrightarrow> st \<noteq> [] \<longrightarrow>
        dataHandler st sock (js ''ALL'' @ CRLF) =
          (st, socket_write (socket_write sock
                 (js ''ANSWER Available words: '' @ join (js '', '') (map_keys st) @ js ''.'' @ CRLF))
                 (js ''---------------'' @ CRLF)))"
proof -
  have clr: "fst (dataHandler st sock' (js ''CLEAR'' @ CRLF)) = []"
    by (simp add: dataHandler_dispatch[OF clear_line_tokens] dispatch_clear)
  have empty: "dataHandler [] sock (js ''ALL'' @ CRLF) =
     ([], socket_write (socket_write sock (js ''ERROR There are no words saved.'' @ CRLF))
            (js ''---------------'' @ CRLF))"
    by (simp add: dataHandler_all_line map_keys_def)
  show ?thesis
    using empty by (simp add: clr dataHandler_all_line join_keys_nonempty)
qed

theorem all_lists_words_witness:
  "store_inv [(js ''foo'', js ''bar''), (js ''baz'', js ''qux'')]
   \<and> [(js ''foo'', js ''bar''), (js ''baz'', js ''qux'')] \<noteq> []
   \<and> dataHandler [(js ''foo'', js ''bar''), (js ''baz'', js ''qux'')]
        \<lparr>written = [], destroyed = False\<rparr> (js ''ALL'' @ CRLF) =
       ([(js ''foo'', js ''bar''), (js ''baz'', js ''qux'')],
        \<lparr>written = [js ''ANSWER Available words: foo, baz.'' @ CRLF,
                    js ''---------------'' @ CRLF],
         destroyed = False\<rparr>)"
proof -
  have inv: "store_inv [(js ''foo'', js ''bar''), (js ''baz'', js ''qux'')]"
    by (simp add: store_inv_def is_word_def js_def is_space_def)
  have ks: "js ''ANSWER Available words: ''
              @ join (js '', '') (map_keys [(js ''foo'', js ''bar''), (js ''baz'', js ''qux'')])
              @ js ''.'' = js ''ANSWER Available words: foo, baz.''"
    by (simp add: map_keys_def js_def)
  from all_lists_words[of "\<lparr>written = [], destroyed = False\<rparr>"
      "[(js ''foo'', js ''bar''), (js ''baz'', js ''qux'')]"] inv ks
  show ?thesis by (simp add: socket_write_def)
qed

subsection \<open>Unknown verbs\<close>

text \<open>
  Claim C5. When the first token of the input is none of \<open>GET\<close>, \<open>SET\<close>, \<open>CLEAR\<close>,
  \<open>ALL\<close> (compared as they are, so \<open>get\<close> is unknown too), the answer is
  \<open>ERROR Command not found.\<close>, followed by the separator line, and the dictionary is
  the one before.
\<close>

theorem unknown_verb_not_found:
  assumes "verb d = Some v"
    and "v \<noteq> js ''GET''" and "v \<noteq> js ''SET''" and "v \<noteq> js ''CLEAR''" and "v \<noteq> js ''ALL''"
  shows "dataHandler st sock d =
           (st, socket_write (socket_write sock (js ''ERROR Command not found.'' @ CRLF))
                  (js ''---------------'' @ CRLF))"
proof (cases "tokens d")
  case Nil
  with assms(1) show ?thesis by (simp add: verb_tokens)
next
  case (Cons t ts)
  with assms(1) have "t = v" by (simp add: verb_tokens)
  with Cons assms(2-5) show ?thesis
    by (simp add: dataHandler_dispatch dispatch_unknown)
qed

theorem unknown_verb_not_found_witness:
  "verb (js ''get foo'' @ CRLF) = Some (js ''get'')
   \<and> js ''get'' \<noteq> js ''GET'' \<and> js ''get'' \<noteq> js ''SET''
   \<and> js ''get'' \<noteq> js ''CLEAR'' \<and> js ''get'' \<noteq> js ''ALL''
   \<and> dataHandler [(js ''foo'', js ''bar'')] \<lparr>written = [], destroyed = False\<rparr>
        (js ''get foo'' @ CRLF) =
       ([(js ''foo'', js ''bar'')],
        \<lparr>written = [js ''ERROR Command not found.'' @ CRLF, js ''---------------'' @ CRLF],
         destroyed = False\<rparr>)"
proof -
  have v: "verb (js ''get foo'' @ CRLF) = Some (js ''get'')"
    by (simp add: verb_def str_match_def js_def CRLF_def is_space_def)
  have ne: "js ''get'' \<noteq> js ''GET''" "js ''get'' \<noteq> js ''SET''"
    "js ''get'' \<noteq> js ''CLEAR''" "js ''get'' \<noteq> js ''ALL''"
    by (simp_all add: js_def)
  from unknown_verb_not_found[OF v ne, of "[(js ''foo'', js ''bar'')]"
      "\<lparr>written = [], destroyed = False\<rparr>"] v ne
  show ?thesis by (simp add: socket_write_def)
qed

subsection \<open>Read-only requests\<close>

text \<open>
  Claim C7. The dictionary after the handler equals the dictionary before it for
  every input whose verb is neither \<open>SET\<close> nor \<open>CLEAR\<close>: \<open>GET\<close>, \<open>ALL\<close>, an unknown
  verb, or no token at all.
\<close>

theorem only_set_and_clear_mutate:
  assumes "verb d \<noteq> Some (js ''SET'')" and "verb d \<noteq> Some (js ''CLEAR'')"
  shows "fst (dataHandler st sock d) = st"
proof (cases "tokens d")
  case Nil
  then show ?thesis by (simp add: dataHandler_blank)
next
  case (Cons t ts)
  with assms have "t \<noteq> js ''SET''" "t \<noteq> js ''CLEAR''" by (simp_all add: verb_tokens)
  with fst_dispatch_cases[of st sock t ts] Cons show ?thesis
    by (simp add: dataHandler_dispatch)
qed

theorem only_set_and_clear_mutate_witness:
  "verb (js ''GET foo'' @ CRLF) \<noteq> Some (js ''SET'')
   \<and> verb (js ''GET foo'' @ CRLF) \<noteq> Some (js ''CLEAR'')
   \<and> fst (dataHandler [(js ''foo'', js ''bar'')] \<lparr>written = [], destroyed = False\<rparr>
            (js ''GET foo'' @ CRLF)) = [(js ''foo'', js ''bar'')]"
proof -
  have v: "verb (js ''GET foo'' @ CRLF) \<noteq> Some (js ''SET'')"
    "verb (js ''GET foo'' @ CRLF) \<noteq> Some (js ''CLEAR'')"
    by (simp_all add: verb_def str_match_def js_def CRLF_def is_space_def)
  from only_set_and_clear_mutate[OF v, of "[(js ''foo'', js ''bar'')]"
      "\<lparr>written = [], destroyed = False\<rparr>"] v
  show ?thesis by simp
qed

subsection \<open>The separator line\<close>

text \<open>
  Claim C2. For every inbound data line the server writes exactly one response line
  that starts with \<open>ANSWER \<close> or \<open>ERROR \<close>, always followed by the separator line
  \<open>---------------\<close>, also after the error for an empty input. The handler leaves
  through \<open>return\<close> after that error, before the write of the separator that every
  other branch reaches: for the blank line \<open>\r\n\<close> the only chunk written is the error.
\<close>

theorem blank_line_without_separator:
  "written (snd (dataHandler [] \<lparr>written = [], destroyed = False\<rparr> CRLF))
     = [js ''ERROR A command was expected.'' @ CRLF]
   \<and> js ''---------------'' @ CRLF
       \<notin> set (written (snd (dataHandler [] \<lparr>written = [], destroyed = False\<rparr> CRLF)))"
proof -
  have "js ''---------------'' @ CRLF \<noteq> js ''ERROR A command was expected.'' @ CRLF"
    by (simp add: js_def)
  then show ?thesis
    by (simp add: dataHandler_blank[OF tokens_CRLF] socket_write_def)
qed

subsection \<open>The description of SET\<close>

text \<open>
  Claim C4. A \<open>SET\<close> line stores, for its word, the tokens after the word joined
  with single spaces, whatever whitespace separated them in the line; a following
  \<open>GET\<close> of the word is answered with that description. So
  \<open>SET foo   has   lots of   spaces\<close> and then \<open>GET foo\<close> give
  \<open>ANSWER has lots of spaces\<close>.
\<close>

theorem set_joins_description_tokens:
  assumes "tokens data = js ''SET'' # w # t # ts"
  shows "fst (dataHandler st sock data) = map_set st w (join (js '' '') (t # ts))
       \<and> map_get (fst (dataHandler st sock data)) w = Some (join (js '' '') (t # ts))
       \<and> written (snd (dataHandler (fst (dataHandler st sock data)) sock'
                         (js ''GET '' @ w @ CRLF)))
           = written sock' @ [js ''ANSWER '' @ join (js '' '') (t # ts) @ CRLF,
                              js ''---------------'' @ CRLF]"
proof -
  have w: "is_word w" and t: "is_word t"
    using tokens_are_words[of _ data] assms by simp_all
  then have ne: "w \<noteq> []" "t \<noteq> []" by (simp_all add: is_word_def)
  have st': "fst (dataHandler st sock data) = map_set st w (join (js '' '') (t # ts))"
    by (simp add: dataHandler_dispatch[OF assms] dispatch_set[OF ne])
  have "join (js '' '') (t # ts) \<noteq> []"
    using ne(2) by (rule join_nonempty)
  then show ?thesis
    by (simp add: st' dataHandler_get_line[OF w] map_get_set_same written_socket_write)
qed

theorem set_joins_description_tokens_witness:
  "tokens (js ''SET foo   has   lots of   spaces'' @ CRLF)
     = js ''SET'' # js ''foo'' # js ''has'' # [js ''lots'', js ''of'', js ''spaces'']
   \<and> written (snd (dataHandler
         (fst (dataHandler [] \<lparr>written = [], destroyed = False\<rparr>
                 (js ''SET foo   has   lots of   spaces'' @ CRLF)))
         \<lparr>written = [], destroyed = False\<rparr> (js ''GET foo'' @ CRLF)))
       = [js ''ANSWER has lots of spaces'' @ CRLF, js ''---------------'' @ CRLF]"
proof -
  have toks: "tokens (js ''SET foo   has   lots of   spaces'' @ CRLF)
     = js ''SET'' # js ''foo'' # js ''has'' # [js ''lots'', js ''of'', js ''spaces'']"
    by (simp add: js_def CRLF_def is_space_def)
  have g: "js ''GET '' @ js ''foo'' @ CRLF = js ''GET foo'' @ CRLF"
    by (simp add: js_def)
  have a: "js ''ANSWER '' @ join (js '' '') (js ''has'' # [js ''lots'', js ''of'', js ''spaces''])
             @ CRLF = js ''ANSWER has lots of spaces'' @ CRLF"
    by (simp add: js_def)
  have e: "written \<lparr>written = [], destroyed = False\<rparr> = []"
    by simp
  note th = set_joins_description_tokens[OF toks, of "[]"
      "\<lparr>written = [], destroyed = False\<rparr>" "\<lparr>written = [], destroyed = False\<rparr>"]
  from th[THEN conjunct2, THEN conjunct2] toks
  show ?thesis by (simp only: g a e append_Nil simp_thms)
qed

subsection \<open>The invariant of the dictionary\<close>

text \<open>
  Claim C6. The handler preserves the invariant that no entry of the dictionary has
  an empty key, a key with whitespace in it, or an empty description; so it holds
  after every sequence of inputs handled from the empty dictionary the server starts
  with. After an input whose verb is \<open>CLEAR\<close> the dictionary is empty.
\<close>

theorem store_invariant:
  "(store_inv st \<longrightarrow> store_inv (fst (dataHandler st sock d)))
   \<and> store_inv (fst (run ([], sock) ds))
   \<and> (verb d = Some (js ''CLEAR'') \<longrightarrow> fst (dataHandler st sock d) = [])"
proof -
  have "store_inv []" by (simp add: store_inv_def)
  then have "store_inv (fst (run ([], sock) ds))" by (rule store_inv_run)
  then show ?thesis
    by (simp add: store_inv_dataHandler fst_dataHandler_clear)
qed

theorem store_invariant_witness:
  "store_inv [(js ''foo'', js ''bar'')]
   \<and> store_inv (fst (dataHandler [(js ''foo'', js ''bar'')] \<lparr>written = [], destroyed = False\<rparr>
        (js ''SET '' @ js ''a'' @ js '' '' @ js ''b'' @ CRLF)))
   \<and> verb (js ''CLEAR'' @ CRLF) = Some (js ''CLEAR'')
   \<and> fst (dataHandler [(js ''foo'', js ''bar'')] \<lparr>written = [], destroyed = False\<rparr> (js ''CLEAR'' @ CRLF)) = []"
proof -
  have inv: "store_inv [(js ''foo'', js ''bar'')]"
    by (simp add: store_inv_def is_word_def js_def is_space_def)
  have v: "verb (js ''CLEAR'' @ CRLF) = Some (js ''CLEAR'')"
    by (simp add: verb_tokens clear_line_tokens)
  from store_invariant[of "[(js ''foo'', js ''bar'')]" "\<lparr>written = [], destroyed = False\<rparr>"
      "js ''SET '' @ js ''a'' @ js '' '' @ js ''b'' @ CRLF" "[]"]
    store_invariant[of "[(js ''foo'', js ''bar'')]" "\<lparr>written = [], destroyed = False\<rparr>" "js ''CLEAR'' @ CRLF" "[]"]
    inv v
  show ?thesis by simp
qed

subsection \<open>Repeated CLEAR and repeated SET\<close>

text \<open>
  Claim C8. \<open>CLEAR\<close> any number of times in succession leaves the dictionary empty,
  and the same line \<open>SET w d\<close> any number of times leaves exactly one entry for \<open>w\<close>,
  mapped to \<open>d\<close>. As stated the second part fails: the entry holds the tokens of \<open>d\<close>
  joined with single spaces, which is not \<open>d\<close> when \<open>d\<close> has a run of two spaces.
\<close>

theorem repeat_idempotent_counterexample:
  "map_get (fst (run ([], \<lparr>written = [], destroyed = False\<rparr>)
       [js ''SET '' @ js ''a'' @ js '' '' @ js ''b  c'' @ CRLF,
        js ''SET '' @ js ''a'' @ js '' '' @ js ''b  c'' @ CRLF])) (js ''a'')
   \<noteq> Some (js ''b  c'')"
  by (simp add: dataHandler_def dispatch_def str_match_def cmdSet_def socket_write_def
      js_def CRLF_def is_space_def)

text \<open>
  Claim C8, amended. Let \<open>w\<close> be a word, \<open>d\<close> have at least one character that is not
  whitespace, and \<open>n\<close> be at least one. \<open>CLEAR\<close> handled \<open>n\<close> times in succession
  leaves the dictionary empty, and \<open>SET w d\<close> handled \<open>n\<close> times in succession leaves
  exactly one entry for \<open>w\<close>, mapped to the tokens of \<open>d\<close> joined with single spaces.
\<close>

theorem repeat_idempotent:
  assumes "0 < n" and "is_word w" and "tokens d \<noteq> []" and "map_wf st"
  shows "fst (run (st, sock) (replicate n (js ''CLEAR'' @ CRLF))) = []
       \<and> filter (\<lambda>e. fst e = w)
           (fst (run (st, sock) (replicate n (js ''SET '' @ w @ js '' '' @ d @ CRLF))))
         = [(w, join (js '' '') (tokens d))]
       \<and> map_get (fst (run (st, sock) (replicate n (js ''SET '' @ w @ js '' '' @ d @ CRLF)))) w
         = Some (join (js '' '') (tokens d))"
proof -
  from assms(1) obtain k where n: "n = Suc k" by (cases n) auto
  show ?thesis
    unfolding n by (simp only: run_clear run_set[OF assms(2,3)] entries_map_set[OF assms(4)]
        map_get_set_same simp_thms)
qed

theorem repeat_idempotent_witness:
  "0 < Suc (Suc (Suc 0)) \<and> is_word (js ''foo'') \<and> tokens (js ''bar  baz'') \<noteq> []
   \<and> map_wf [(js ''foo'', js ''old'')]
   \<and> fst (run ([(js ''foo'', js ''old'')], \<lparr>written = [], destroyed = False\<rparr>)
        (replicate (Suc (Suc (Suc 0))) (js ''CLEAR'' @ CRLF))) = []
   \<and> filter (\<lambda>e. fst e = js ''foo'')
        (fst (run ([(js ''foo'', js ''old'')], \<lparr>written = [], destroyed = False\<rparr>)
           (replicate (Suc (Suc (Suc 0)))
              (js ''SET '' @ js ''foo'' @ js '' '' @ js ''bar  baz'' @ CRLF))))
       = [(js ''foo'', js ''bar baz'')]
   \<and> map_get (fst (run ([(js ''foo'', js ''old'')], \<lparr>written = [], destroyed = False\<rparr>)
           (replicate (Suc (Suc (Suc 0)))
              (js ''SET '' @ js ''foo'' @ js '' '' @ js ''bar  baz'' @ CRLF)))) (js ''foo'')
       = Some (js ''bar baz'')"
proof -
  have n: "0 < Suc (Suc (Suc 0))" by simp
  have w: "is_word (js ''foo'')"
    by (simp add: is_word_def js_def is_space_def)
  have d: "tokens (js ''bar  baz'') \<noteq> []"
    by (simp add: js_def is_space_def)
  have wf: "map_wf [(js ''foo'', js ''old'')]"
    by (simp add: map_wf_def)
  have j: "join (js '' '') (tokens (js ''bar  baz'')) = js ''bar baz''"
    by (simp add: js_def is_space_def)
  from repeat_idempotent[OF n w d wf, of "\<lparr>written = [], destroyed = False\<rparr>"] n w d wf
  show ?thesis by (simp only: j simp_thms)
qed

subsection \<open>Blank lines\<close>

text \<open>
  Claim C9. An input that is empty or all whitespace is answered with
  \<open>ERROR A command was expected.\<close>; the socket is not destroyed by it, and the next
  data event of the connection is handled as usual, on the same dictionary.
\<close>

theorem blank_line:
  assumes "list_all is_space d"
  shows "dataHandler st sock d =
           (st, socket_write sock (js ''ERROR A command was expected.'' @ CRLF))
       \<and> destroyed (snd (dataHandler st sock d)) = destroyed sock
       \<and> (\<not> destroyed sock \<longrightarrow>
            on_event (on_event (st, sock) (Data d)) (Data d') =
              dataHandler st (socket_write sock (js ''ERROR A command was expected.'' @ CRLF)) d')"
proof -
  from assms have "tokens d = []" by (simp add: tokens_all_space)
  then show ?thesis
    by (simp add: dataHandler_blank destroyed_socket_write)
qed

theorem blank_line_witness:
  "list_all is_space CRLF
   \<and> dataHandler [(js ''foo'', js ''bar'')] \<lparr>written = [], destroyed = False\<rparr> CRLF =
       ([(js ''foo'', js ''bar'')],
        \<lparr>written = [js ''ERROR A command was expected.'' @ CRLF], destroyed = False\<rparr>)
   \<and> \<not> destroyed \<lparr>written = [], destroyed = False\<rparr>
   \<and> on_event (on_event ([(js ''foo'', js ''bar'')], \<lparr>written = [], destroyed = False\<rparr>) (Data CRLF))
        (Data (js ''GET '' @ js ''foo'' @ CRLF)) =
       ([(js ''foo'', js ''bar'')],
        \<lparr>written = [js ''ERROR A command was expected.'' @ CRLF,
                    js ''ANSWER '' @ js ''bar'' @ CRLF, js ''---------------'' @ CRLF],
         destroyed = False\<rparr>)"
proof -
  have w: "is_word (js ''foo'')"
    by (simp add: is_word_def js_def is_space_def)
  have b: "js ''bar'' \<noteq> []"
    by (simp add: js_def)
  from blank_line[OF CRLF_spaces, of "[(js ''foo'', js ''bar'')]" "\<lparr>written = [], destroyed = False\<rparr>"
      "js ''GET '' @ js ''foo'' @ CRLF"] CRLF_spaces b
  show ?thesis
    by (simp add: dataHandler_get_line[OF w] socket_write_def)
qed

subsection \<open>One command for each data event\<close>

text \<open>
  Claim C10. A data event is one command, and every whitespace character, carriage
  return and line feed included, only separates tokens: replacing each whitespace
  character by a space changes no token, and a chunk of two lines ended by
  \<open>\r\n\<close> is handled as the two lines joined by one space. Every chunk gets one
  response (and at most the separator line after it); the tokens of a second line
  become arguments of the command of the first, for \<open>SET\<close> a part of the description.
\<close>

theorem one_command_per_chunk:
  "tokens (map (\<lambda>c. if is_space c then 0x20 else c) d) = tokens d
   \<and> tokens (l1 @ CRLF @ l2 @ CRLF) = tokens l1 @ tokens l2
   \<and> dataHandler st sock (l1 @ CRLF @ l2 @ CRLF) = dataHandler st sock (l1 @ js '' '' @ l2)
   \<and> (\<exists>r. (take 7 r = js ''ANSWER '' \<or> take 6 r = js ''ERROR '')
          \<and> written (snd (dataHandler st sock d)) =
              written sock @ (if tokens d = [] then [r] else [r, js ''---------------'' @ CRLF]))
   \<and> (is_word w \<longrightarrow> tokens d1 \<noteq> [] \<longrightarrow>
        dataHandler st sock (js ''SET '' @ w @ js '' '' @ d1 @ CRLF @ l2 @ CRLF) =
          (map_set st w (join (js '' '') (tokens d1 @ tokens l2)),
           socket_write (socket_write sock (js ''ANSWER Word '' @ w @ js '' has been set.'' @ CRLF))
             (js ''---------------'' @ CRLF)))"
proof -
  have sp: "tokens (l1 @ js '' '' @ l2) = tokens l1 @ tokens l2"
    by (simp add: literal_SP tokens_append_space[OF is_space_SP])
  have same: "dataHandler st sock (l1 @ CRLF @ l2 @ CRLF) = dataHandler st sock (l1 @ js '' '' @ l2)"
    by (rule dataHandler_cong) (simp only: tokens_two_lines sp)
  have absorbed: "dataHandler st sock (js ''SET '' @ w @ js '' '' @ d1 @ CRLF @ l2 @ CRLF) =
          (map_set st w (join (js '' '') (tokens d1 @ tokens l2)),
           socket_write (socket_write sock (js ''ANSWER Word '' @ w @ js '' has been set.'' @ CRLF))
             (js ''---------------'' @ CRLF))"
    if w: "is_word w" and d1: "tokens d1 \<noteq> []"
  proof -
    have "tokens (d1 @ CRLF @ l2) \<noteq> []"
      using d1 tokens_two_lines[of d1 l2] by (simp add: tokens_space_suffix[OF CRLF_spaces, of "d1 @ CRLF @ l2", simplified])
    from dataHandler_set_line[OF w this, of st sock] show ?thesis
      using tokens_two_lines[of d1 l2] by (simp add: tokens_space_suffix[OF CRLF_spaces, of "d1 @ CRLF @ l2", simplified])
  qed
  show ?thesis
    using dataHandler_writes[of st sock d] absorbed
    by (simp only: tokens_map_sp tokens_two_lines same simp_thms) blast
qed

theorem one_command_per_chunk_witness:
  "is_word (js ''a'') \<and> tokens (js ''b'') \<noteq> []
   \<and> dataHandler [] \<lparr>written = [], destroyed = False\<rparr>
        (js ''SET '' @ js ''a'' @ js '' '' @ js ''b'' @ CRLF @ js ''GET a'' @ CRLF) =
       ([(js ''a'', js ''b GET a'')],
        \<lparr>written = [js ''ANSWER Word '' @ js ''a'' @ js '' has been set.'' @ CRLF,
                    js ''---------------'' @ CRLF],
         destroyed = False\<rparr>)"
proof -
  have w: "is_word (js ''a'')"
    by (simp add: is_word_def js_def is_space_def)
  have d: "tokens (js ''b'') \<noteq> []"
    by (simp add: js_def is_space_def)
  have j: "join (js '' '') (tokens (js ''b'') @ tokens (js ''GET a'')) = js ''b GET a''"
    by (simp add: js_def is_space_def)
  from one_command_per_chunk[of "[]" "[]" "js ''GET a''" "[]"
      "\<lparr>written = [], destroyed = False\<rparr>" "js ''a''" "js ''b''"]
    w d j
  show ?thesis by (simp add: socket_write_def)
qed

end
